theory Spec2Isabelle
  imports Main "HOL-Library.Word"
begin

section \<open>The USB service of chrome/browser/usb/usb\_service.cc\<close>

text \<open>
  The service owns a libusb context, an event-handler thread object and the map
  \<open>m_devices\<close> from platform devices to the wrappers of their open handles. Pointers are
  modelled by the values they identify: a \<open>libusb_device*\<close> is a number, a pointer
  that may be \<open>NULL\<close> is an \<open>option\<close>. Every function takes the state of the
  service together with the state of the USB backend and returns the new one; the calls
  it makes to the backend, to the log and to the caller's callback are appended to
  \<open>trace\<close>, and the backend's per-device reference count is kept in \<open>refcount\<close>.
\<close>

subsection \<open>Data\<close>

type_synonym PlatformUsbContext = nat
type_synonym PlatformUsbDevice = nat
type_synonym uint16 = "16 word"

record libusb_device_descriptor =
  idVendor :: uint16
  idProduct :: uint16

text \<open>An open backend handle: the device it was opened on and the serial number of the
  open call that made it.\<close>

record libusb_device_handle =
  dev :: PlatformUsbDevice
  serial :: nat

text \<open>\<open>new UsbDeviceHandle(this, handle)\<close>: the wrapper the registry hands to callers.\<close>

datatype UsbDeviceHandle = UsbDeviceHandle (handle: libusb_device_handle)

text \<open>\<open>UsbService::RefCountedPlatformUsbDevice\<close>: a token holding one device pointer.\<close>

datatype RefCountedPlatformUsbDevice = RefCountedPlatformUsbDevice (device: PlatformUsbDevice)

type_synonym DeviceVector = "RefCountedPlatformUsbDevice list"

datatype event =
    LibusbGetDeviceList "PlatformUsbContext option"
  | LibusbOpen PlatformUsbDevice
  | LibusbClose libusb_device_handle
  | LibusbExit "PlatformUsbContext option"
  | LogWarning string
  | RequestUsbAccess uint16 uint16 int
  | RunCallback "UsbDeviceHandle list"

record world =
  m_context :: "PlatformUsbContext option"
  m_event_handler :: "nat option"
  m_running :: bool
  m_devices :: "PlatformUsbDevice \<rightharpoonup> UsbDeviceHandle"
  device_list :: "PlatformUsbDevice list option"
  descriptors :: "PlatformUsbDevice \<rightharpoonup> libusb_device_descriptor"
  open_fails :: "PlatformUsbDevice \<Rightarrow> bool"
  refcount :: "PlatformUsbDevice \<Rightarrow> int"
  next_serial :: nat
  trace :: "event list"

text \<open>
  The fields \<open>m_context\<close>, \<open>m_event_handler\<close> and \<open>m_devices\<close> are the members
  \<^verbatim>\<open>context_\<close>, \<^verbatim>\<open>event_handler_\<close> and \<^verbatim>\<open>devices_\<close> of \<open>UsbService\<close> (a name
  cannot end in an underscore here); \<open>m_running\<close> is the flag \<^verbatim>\<open>running_\<close> of the
  \<open>UsbEventHandler\<close> object that \<open>m_event_handler\<close> points to. The others describe the backend: \<open>device_list\<close> is
  what an enumeration finds (\<open>None\<close>: a negative count), \<open>descriptors\<close> what a
  descriptor read gives (\<open>None\<close>: a non-zero return code), \<open>open_fails\<close> whether
  opening a device returns a non-zero code.
\<close>

text \<open>What the build and the machine decide: \<open>OS_CHROMEOS\<close>, whether \<open>DCHECK\<close> is
  compiled in, \<open>IsRunningOnChromeOS()\<close> and \<open>GetPermissionBrokerClient()\<close>.\<close>

record platform =
  os_chromeos :: bool
  dcheck_is_on :: bool
  IsRunningOnChromeOS :: bool
  GetPermissionBrokerClient :: "nat option"

datatype fatal = DCheckFailed string

subsection \<open>The backend\<close>

definition emit :: "event \<Rightarrow> world \<Rightarrow> world" where
  "emit e s = s\<lparr>trace := trace s @ [e]\<rparr>"

definition libusb_ref_device :: "PlatformUsbDevice \<Rightarrow> world \<Rightarrow> world" where
  "libusb_ref_device d s = s\<lparr>refcount := (refcount s)(d := refcount s d + 1)\<rparr>"

definition libusb_unref_device :: "PlatformUsbDevice \<Rightarrow> world \<Rightarrow> world" where
  "libusb_unref_device d s = s\<lparr>refcount := (refcount s)(d := refcount s d - 1)\<rparr>"

text \<open>Modelled from the spec: \<open>list_devices(Context) -> sequence<RawDeviceRef>\<close> plus
  reference increment/decrement, of the backend, third\_party/libusb. The reference counting is as the libusb API documents it: each device of
  the returned list has had its count raised by one for the list, and the caller is
  expected to unreference the devices when it frees the list. The event records the
  context the call was given.\<close>

definition libusb_get_device_list :: "world \<Rightarrow> PlatformUsbDevice list option \<times> world" where
  "libusb_get_device_list s =
     (let s1 = emit (LibusbGetDeviceList (m_context s)) s
      in case device_list s of
           None \<Rightarrow> (None, s1)
         | Some ds \<Rightarrow> (Some ds, fold libusb_ref_device ds s1))"

text \<open>Modelled from the spec: the backend's release of a device list; with
  \<open>unref_devices\<close> set it lowers the count of every device of the list by one, which
  gives back the reference the list was made with.\<close>

definition libusb_free_device_list :: "PlatformUsbDevice list \<Rightarrow> bool \<Rightarrow> world \<Rightarrow> world" where
  "libusb_free_device_list ds unref_devices s =
     (if unref_devices then fold libusb_unref_device ds s else s)"

text \<open>Modelled from the spec: \<open>read_descriptor(RawDeviceRef) -> {vendor_id, product_id} | error\<close>.\<close>

definition libusb_get_device_descriptor ::
  "PlatformUsbDevice \<Rightarrow> world \<Rightarrow> libusb_device_descriptor option" where
  "libusb_get_device_descriptor d s = descriptors s d"

text \<open>Modelled from the spec: \<open>open(RawDeviceRef) -> NativeHandle | error\<close>. A handle
  that is open holds one reference to its device.\<close>

definition libusb_open :: "PlatformUsbDevice \<Rightarrow> world \<Rightarrow> libusb_device_handle option \<times> world" where
  "libusb_open d s =
     (let s1 = emit (LibusbOpen d) s
      in if open_fails s d then (None, s1)
         else (Some \<lparr>dev = d, serial = next_serial s\<rparr>,
               libusb_ref_device d (s1\<lparr>next_serial := Suc (next_serial s)\<rparr>)))"

text \<open>Modelled from the spec: \<open>close(NativeHandle)\<close>, which gives the handle's reference
  to its device back.\<close>

definition libusb_close :: "libusb_device_handle \<Rightarrow> world \<Rightarrow> world" where
  "libusb_close h s = libusb_unref_device (dev h) (emit (LibusbClose h) s)"

definition libusb_get_device :: "libusb_device_handle \<Rightarrow> PlatformUsbDevice" where
  "libusb_get_device h = dev h"

subsection \<open>Construction and shutdown\<close>

text \<open>The constructor stores the context \<open>libusb_init\<close> made and the address of the new
  \<open>UsbEventHandler\<close>, whose thread is running when the constructor returns.\<close>

definition UsbService_ctor :: "PlatformUsbContext \<Rightarrow> nat \<Rightarrow> world \<Rightarrow> world" where
  "UsbService_ctor ctx eh s =
     s\<lparr>m_context := Some ctx, m_event_handler := Some eh, m_running := True,
       m_devices := Map.empty\<rparr>"

text \<open>\<open>Shutdown\<close> stops and deletes the event handler, leaves the backend and sets
  \<open>m_context\<close> to \<open>NULL\<close>. It assigns nothing to \<open>m_event_handler\<close>.\<close>

definition Shutdown :: "world \<Rightarrow> world" where
  "Shutdown s =
     (let s1 = s\<lparr>m_running := False\<rparr>;
          s2 = emit (LibusbExit (m_context s1)) s1
      in s2\<lparr>m_context := None\<rparr>)"

subsection \<open>Identity tokens\<close>

definition RefCountedPlatformUsbDevice_ctor ::
  "PlatformUsbDevice \<Rightarrow> world \<Rightarrow> RefCountedPlatformUsbDevice \<times> world" where
  "RefCountedPlatformUsbDevice_ctor d s = (RefCountedPlatformUsbDevice d, libusb_ref_device d s)"

definition RefCountedPlatformUsbDevice_copy ::
  "RefCountedPlatformUsbDevice \<Rightarrow> world \<Rightarrow> RefCountedPlatformUsbDevice \<times> world" where
  "RefCountedPlatformUsbDevice_copy other s =
     (RefCountedPlatformUsbDevice (device other), libusb_ref_device (device other) s)"

definition RefCountedPlatformUsbDevice_dtor :: "RefCountedPlatformUsbDevice \<Rightarrow> world \<Rightarrow> world" where
  "RefCountedPlatformUsbDevice_dtor t s = libusb_unref_device (device t) s"

text \<open>Destroying a \<open>DeviceVector\<close> (at the end of its scope, or by \<open>STLClearObject\<close>)
  destroys each token in it.\<close>

definition DeviceVector_dtor :: "DeviceVector \<Rightarrow> world \<Rightarrow> world" where
  "DeviceVector_dtor v s = fold RefCountedPlatformUsbDevice_dtor v s"

subsection \<open>Enumeration and matching\<close>

text \<open>The loop of \<open>EnumerateDevicesImpl\<close>: an explicit \<open>libusb_ref_device\<close>, then
  \<open>push_back\<close> of a temporary token, which constructs the temporary, copies it into the
  vector and destroys the temporary.\<close>

fun EnumerateDevicesImpl_loop ::
  "PlatformUsbDevice list \<Rightarrow> DeviceVector \<Rightarrow> world \<Rightarrow> DeviceVector \<times> world" where
  "EnumerateDevicesImpl_loop [] output s = (output, s)"
| "EnumerateDevicesImpl_loop (d # rest) output s =
     (let s1 = libusb_ref_device d s;
          (tmp, s2) = RefCountedPlatformUsbDevice_ctor d s1;
          (elem, s3) = RefCountedPlatformUsbDevice_copy tmp s2;
          s4 = RefCountedPlatformUsbDevice_dtor tmp s3
      in EnumerateDevicesImpl_loop rest (output @ [elem]) s4)"

definition EnumerateDevicesImpl :: "DeviceVector \<Rightarrow> world \<Rightarrow> DeviceVector \<times> world" where
  "EnumerateDevicesImpl output s =
     (let s0 = DeviceVector_dtor output s
      in case libusb_get_device_list s0 of
           (None, s1) \<Rightarrow> ([], s1)
         | (Some devices, s1) \<Rightarrow>
             (let (out, s2) = EnumerateDevicesImpl_loop devices [] s1
              in (out, libusb_free_device_list devices True s2)))"

definition DeviceMatches :: "world \<Rightarrow> PlatformUsbDevice \<Rightarrow> uint16 \<Rightarrow> uint16 \<Rightarrow> bool" where
  "DeviceMatches s d vendor_id product_id =
     (case libusb_get_device_descriptor d s of
        None \<Rightarrow> False
      | Some descriptor \<Rightarrow> idVendor descriptor = vendor_id \<and> idProduct descriptor = product_id)"

subsection \<open>The registry\<close>

definition LookupOrCreateDevice ::
  "PlatformUsbDevice \<Rightarrow> world \<Rightarrow> UsbDeviceHandle option \<times> world" where
  "LookupOrCreateDevice d s =
     (if m_devices s d = None then
        (case libusb_open d s of
           (None, s1) \<Rightarrow> (None, emit (LogWarning ''Could not open device.'') s1)
         | (Some h, s1) \<Rightarrow>
             (let wrapper = UsbDeviceHandle h;
                  s2 = s1\<lparr>m_devices := (m_devices s1)(d \<mapsto> wrapper)\<rparr>
              in (m_devices s2 d, s2)))
      else (m_devices s d, s))"

definition CloseDevice :: "platform \<Rightarrow> UsbDeviceHandle \<Rightarrow> world \<Rightarrow> fatal + world" where
  "CloseDevice p w s =
     (if dcheck_is_on p \<and> m_event_handler s = None
      then Inl (DCheckFailed ''CloseDevice called after event handler stopped.'')
      else
        (let platform_device = libusb_get_device (handle w)
         in if m_devices s platform_device = None
            then Inr (emit (LogWarning ''CloseDevice called for device we're not tracking!'') s)
            else Inr (libusb_close (handle w)
                       (s\<lparr>m_devices := (m_devices s)(platform_device := None)\<rparr>))))"

subsection \<open>Finding and enumerating devices\<close>

fun FindDevicesImpl_loop ::
  "DeviceVector \<Rightarrow> uint16 \<Rightarrow> uint16 \<Rightarrow> UsbDeviceHandle list \<Rightarrow> world \<Rightarrow>
   UsbDeviceHandle list \<times> world" where
  "FindDevicesImpl_loop [] vendor_id product_id devices s = (devices, s)"
| "FindDevicesImpl_loop (it # rest) vendor_id product_id devices s =
     (if DeviceMatches s (device it) vendor_id product_id then
        (case LookupOrCreateDevice (device it) s of
           (None, s1) \<Rightarrow> FindDevicesImpl_loop rest vendor_id product_id devices s1
         | (Some wrapper, s1) \<Rightarrow>
             FindDevicesImpl_loop rest vendor_id product_id (devices @ [wrapper]) s1)
      else FindDevicesImpl_loop rest vendor_id product_id devices s)"

text \<open>\<open>FindDevicesImpl\<close> takes the contents of the caller's vector and returns the new
  contents. The \<open>ScopedClosureRunner\<close> runs the callback when the function is left,
  after the local \<open>DeviceVector\<close> has been destroyed; the event records what the
  vector holds at that moment.\<close>

definition FindDevicesImpl ::
  "uint16 \<Rightarrow> uint16 \<Rightarrow> UsbDeviceHandle list \<Rightarrow> bool \<Rightarrow> world \<Rightarrow> UsbDeviceHandle list \<times> world" where
  "FindDevicesImpl vendor_id product_id devices success s =
     (let cleared = [] :: UsbDeviceHandle list
      in if \<not> success then (cleared, emit (RunCallback cleared) s)
         else
           (let (enumerated_devices, s1) = EnumerateDevicesImpl [] s;
                (found, s2) = FindDevicesImpl_loop enumerated_devices vendor_id product_id cleared s1;
                s3 = DeviceVector_dtor enumerated_devices s2
            in (found, emit (RunCallback found) s3)))"

text \<open>A request handed to the permission broker: the arguments bound to
  \<open>FindDevicesImpl\<close>. The broker later answers with the success flag.\<close>

record pending_request =
  bound_vendor_id :: uint16
  bound_product_id :: uint16

datatype find_outcome =
    Finished "UsbDeviceHandle list" world
  | AwaitingGrant pending_request world

definition FindDevices ::
  "platform \<Rightarrow> uint16 \<Rightarrow> uint16 \<Rightarrow> int \<Rightarrow> UsbDeviceHandle list \<Rightarrow> world \<Rightarrow> fatal + find_outcome" where
  "FindDevices p vendor_id product_id interface_id devices s =
     (if dcheck_is_on p \<and> m_event_handler s = None
      then Inl (DCheckFailed ''FindDevices called after event handler stopped.'')
      else if os_chromeos p then
        (if IsRunningOnChromeOS p then
           (case GetPermissionBrokerClient p of
              None \<Rightarrow>
                if dcheck_is_on p
                then Inl (DCheckFailed ''Could not get permission broker client.'')
                else Inr (Finished devices (emit (RunCallback devices) s))
            | Some client \<Rightarrow>
                Inr (AwaitingGrant
                      \<lparr>bound_vendor_id = vendor_id, bound_product_id = product_id\<rparr>
                      (emit (RequestUsbAccess vendor_id product_id interface_id) s)))
         else (case FindDevicesImpl vendor_id product_id devices True s of
                 (found, s1) \<Rightarrow> Inr (Finished found s1)))
      else (case FindDevicesImpl vendor_id product_id devices True s of
              (found, s1) \<Rightarrow> Inr (Finished found s1)))"

text \<open>The broker's answer runs the bound \<open>FindDevicesImpl\<close> on the vector as it is then.\<close>

definition broker_reply ::
  "pending_request \<Rightarrow> bool \<Rightarrow> UsbDeviceHandle list \<Rightarrow> world \<Rightarrow> UsbDeviceHandle list \<times> world" where
  "broker_reply r success devices s =
     FindDevicesImpl (bound_vendor_id r) (bound_product_id r) devices success s"

fun EnumerateDevices_loop ::
  "DeviceVector \<Rightarrow> UsbDeviceHandle list \<Rightarrow> world \<Rightarrow> UsbDeviceHandle list \<times> world" where
  "EnumerateDevices_loop [] devices s = (devices, s)"
| "EnumerateDevices_loop (it # rest) devices s =
     (case LookupOrCreateDevice (device it) s of
        (None, s1) \<Rightarrow> EnumerateDevices_loop rest devices s1
      | (Some wrapper, s1) \<Rightarrow> EnumerateDevices_loop rest (devices @ [wrapper]) s1)"

definition EnumerateDevices :: "UsbDeviceHandle list \<Rightarrow> world \<Rightarrow> UsbDeviceHandle list \<times> world" where
  "EnumerateDevices devices s =
     (let cleared = [] :: UsbDeviceHandle list;
          (enumerated_devices, s1) = EnumerateDevicesImpl [] s;
          (found, s2) = EnumerateDevices_loop enumerated_devices cleared s1
      in (found, DeviceVector_dtor enumerated_devices s2))"

subsection \<open>Observations on a trace\<close>

definition open_calls :: "PlatformUsbDevice \<Rightarrow> world \<Rightarrow> nat" where
  "open_calls d s = count_list (trace s) (LibusbOpen d)"

fun is_RunCallback :: "event \<Rightarrow> bool" where
  "is_RunCallback (RunCallback ds) = True"
| "is_RunCallback e = False"

definition callback_runs :: "world \<Rightarrow> nat" where
  "callback_runs s = length (filter is_RunCallback (trace s))"

text \<open>A caller that asks for the same device once for each element of a list. Every
  call asks the backend anew, and a device that refused may have become ready: the
  element says whether an open of the device would fail at the moment of that call.\<close>

fun LookupOrCreateDevice_seq ::
  "bool list \<Rightarrow> PlatformUsbDevice \<Rightarrow> world \<Rightarrow> UsbDeviceHandle option list \<times> world" where
  "LookupOrCreateDevice_seq [] d s = ([], s)"
| "LookupOrCreateDevice_seq (fails # later) d s =
     (case LookupOrCreateDevice d (s\<lparr>open_fails := (open_fails s)(d := fails)\<rparr>) of
        (r, s1) \<Rightarrow>
          (case LookupOrCreateDevice_seq later d s1 of (rs, s2) \<Rightarrow> (r # rs, s2)))"

text \<open>The calls of such a sequence that come before the first one whose open succeeds.\<close>

definition failed_calls :: "bool list \<Rightarrow> nat" where
  "failed_calls fs = length (takeWhile (\<lambda>fails. fails) fs)"

text \<open>Every open that succeeds takes the next serial number, so \<open>next_serial\<close> counts
  the opens that have succeeded.\<close>

definition opens_succeeded :: "world \<Rightarrow> nat" where
  "opens_succeeded s = next_serial s"

text \<open>The world a call of \<open>FindDevices\<close> that began in \<open>s\<close> leaves behind. Both
  assertions are checked before the call has done anything, so a failed one stops the
  process in \<open>s\<close>.\<close>

definition world_after :: "world \<Rightarrow> fatal + find_outcome \<Rightarrow> world" where
  "world_after s r =
     (case r of
        Inl e \<Rightarrow> s
      | Inr (Finished found s') \<Rightarrow> s'
      | Inr (AwaitingGrant q s') \<Rightarrow> s')"

subsection \<open>A small installation\<close>

text \<open>Three devices are attached. Device 1 opens; device 2 has a descriptor but refuses
  to open; the descriptor of device 3 cannot be read.\<close>

definition bare_backend :: world where
  "bare_backend =
     \<lparr>m_context = None, m_event_handler = None, m_running = False, m_devices = Map.empty,
      device_list = Some [1, 2, 3],
      descriptors = [1 \<mapsto> \<lparr>idVendor = 0x18D1, idProduct = 0x4EE1\<rparr>,
                     2 \<mapsto> \<lparr>idVendor = 0x18D1, idProduct = 0x4EE2\<rparr>],
      open_fails = (\<lambda>d. d = 2), refcount = (\<lambda>d. 0), next_serial = 0, trace = []\<rparr>"

definition live_service :: world where
  "live_service = UsbService_ctor 100 200 bare_backend"

text \<open>A wrapper that this service never handed out, and a build with \<open>DCHECK\<close> for a
  platform other than ChromeOS.\<close>

definition stray_wrapper :: UsbDeviceHandle where
  "stray_wrapper = UsbDeviceHandle \<lparr>dev = 3, serial = 7\<rparr>"

definition debug_desktop :: platform where
  "debug_desktop =
     \<lparr>os_chromeos = False, dcheck_is_on = True, IsRunningOnChromeOS = False,
      GetPermissionBrokerClient = None\<rparr>"

text \<open>The wrapper the service makes when device 1 is opened first, and the service after
  that lookup.\<close>

definition first_wrapper :: UsbDeviceHandle where
  "first_wrapper = UsbDeviceHandle \<lparr>dev = 1, serial = 0\<rparr>"

definition tracking_service :: world where
  "tracking_service = snd (LookupOrCreateDevice 1 live_service)"

text \<open>A ChromeOS release build on a ChromeOS machine whose permission broker client
  cannot be obtained.\<close>

definition release_chromeos_no_broker :: platform where
  "release_chromeos_no_broker =
     \<lparr>os_chromeos = True, dcheck_is_on = False, IsRunningOnChromeOS = True,
      GetPermissionBrokerClient = None\<rparr>"

text \<open>A ChromeOS build with \<open>DCHECK\<close> on a ChromeOS machine, with the broker's client at
  hand and without it.\<close>

definition chromeos_with_broker :: platform where
  "chromeos_with_broker =
     \<lparr>os_chromeos = True, dcheck_is_on = True, IsRunningOnChromeOS = True,
      GetPermissionBrokerClient = Some 300\<rparr>"

definition debug_chromeos_no_broker :: platform where
  "debug_chromeos_no_broker =
     \<lparr>os_chromeos = True, dcheck_is_on = True, IsRunningOnChromeOS = True,
      GetPermissionBrokerClient = None\<rparr>"

section \<open>Properties\<close>

subsection \<open>Reference counts in closed form\<close>

lemma emit_fields [simp]:
  "trace (emit e s) = trace s @ [e]"
  "m_devices (emit e s) = m_devices s"
  "m_event_handler (emit e s) = m_event_handler s"
  "m_context (emit e s) = m_context s"
  "refcount (emit e s) = refcount s"
  "open_fails (emit e s) = open_fails s"
  "device_list (emit e s) = device_list s"
  "descriptors (emit e s) = descriptors s"
  "next_serial (emit e s) = next_serial s"
  by (simp_all add: emit_def)

lemma fold_ref_closed:
  "fold libusb_ref_device ds s = s\<lparr>refcount := (\<lambda>d. refcount s d + int (count_list ds d))\<rparr>"
proof (induction ds arbitrary: s)
  case Nil
  show ?case by simp
next
  case (Cons a ds)
  have "fold libusb_ref_device (a # ds) s = fold libusb_ref_device ds (libusb_ref_device a s)"
    by simp
  also have "\<dots> = s\<lparr>refcount := (\<lambda>d. refcount s d + int (count_list (a # ds) d))\<rparr>"
    unfolding Cons.IH by (simp add: libusb_ref_device_def fun_eq_iff)
  finally show ?case .
qed

lemma fold_unref_closed:
  "fold libusb_unref_device ds s = s\<lparr>refcount := (\<lambda>d. refcount s d - int (count_list ds d))\<rparr>"
proof (induction ds arbitrary: s)
  case Nil
  show ?case by simp
next
  case (Cons a ds)
  have "fold libusb_unref_device (a # ds) s = fold libusb_unref_device ds (libusb_unref_device a s)"
    by simp
  also have "\<dots> = s\<lparr>refcount := (\<lambda>d. refcount s d - int (count_list (a # ds) d))\<rparr>"
    unfolding Cons.IH by (simp add: libusb_unref_device_def fun_eq_iff)
  finally show ?case .
qed

lemma DeviceVector_dtor_closed:
  "DeviceVector_dtor v s =
     s\<lparr>refcount := (\<lambda>d. refcount s d - int (count_list (map device v) d))\<rparr>"
proof (induction v arbitrary: s)
  case Nil
  show ?case by (simp add: DeviceVector_dtor_def)
next
  case (Cons a v)
  have "DeviceVector_dtor (a # v) s = DeviceVector_dtor v (libusb_unref_device (device a) s)"
    by (simp add: DeviceVector_dtor_def RefCountedPlatformUsbDevice_dtor_def)
  also have "\<dots> =
      s\<lparr>refcount := (\<lambda>d. refcount s d - int (count_list (map device (a # v)) d))\<rparr>"
    unfolding Cons.IH by (simp add: libusb_unref_device_def fun_eq_iff)
  finally show ?case .
qed

lemma EnumerateDevicesImpl_loop_closed:
  "EnumerateDevicesImpl_loop ds out s =
     (out @ map RefCountedPlatformUsbDevice ds,
      s\<lparr>refcount := (\<lambda>d. refcount s d + 2 * int (count_list ds d))\<rparr>)"
proof (induction ds arbitrary: out s)
  case Nil
  show ?case by simp
next
  case (Cons a ds)
  have "EnumerateDevicesImpl_loop (a # ds) out s =
        EnumerateDevicesImpl_loop ds (out @ [RefCountedPlatformUsbDevice a])
          (libusb_ref_device a (libusb_ref_device a s))"
    by (simp add: RefCountedPlatformUsbDevice_ctor_def RefCountedPlatformUsbDevice_copy_def
        RefCountedPlatformUsbDevice_dtor_def libusb_ref_device_def libusb_unref_device_def)
  also have "\<dots> =
      (out @ map RefCountedPlatformUsbDevice (a # ds),
       s\<lparr>refcount := (\<lambda>d. refcount s d + 2 * int (count_list (a # ds) d))\<rparr>)"
    unfolding Cons.IH by (simp add: libusb_ref_device_def fun_eq_iff)
  finally show ?case .
qed

lemma EnumerateDevicesImpl_closed:
  "EnumerateDevicesImpl [] s =
     (case device_list s of
        None \<Rightarrow> ([], emit (LibusbGetDeviceList (m_context s)) s)
      | Some ds \<Rightarrow>
          (map RefCountedPlatformUsbDevice ds,
           (emit (LibusbGetDeviceList (m_context s)) s)
             \<lparr>refcount := (\<lambda>d. refcount s d + 2 * int (count_list ds d))\<rparr>))"
  by (simp add: EnumerateDevicesImpl_def DeviceVector_dtor_def libusb_get_device_list_def
      libusb_free_device_list_def fold_ref_closed fold_unref_closed EnumerateDevicesImpl_loop_closed
      Let_def fun_eq_iff emit_def split: option.splits)

subsection \<open>The three ways through \<open>LookupOrCreateDevice\<close>\<close>

lemma LookupOrCreateDevice_tracked:
  "m_devices s d = Some w \<Longrightarrow> LookupOrCreateDevice d s = (Some w, s)"
  by (simp add: LookupOrCreateDevice_def)

lemma LookupOrCreateDevice_failed:
  "m_devices s d = None \<Longrightarrow> open_fails s d \<Longrightarrow>
   LookupOrCreateDevice d s =
     (None, emit (LogWarning ''Could not open device.'') (emit (LibusbOpen d) s))"
  by (simp add: LookupOrCreateDevice_def libusb_open_def)

lemma LookupOrCreateDevice_opened:
  "m_devices s d = None \<Longrightarrow> \<not> open_fails s d \<Longrightarrow>
   LookupOrCreateDevice d s =
     (Some (UsbDeviceHandle \<lparr>dev = d, serial = next_serial s\<rparr>),
      (libusb_ref_device d ((emit (LibusbOpen d) s)\<lparr>next_serial := Suc (next_serial s)\<rparr>))
        \<lparr>m_devices := (m_devices s)(d \<mapsto> UsbDeviceHandle \<lparr>dev = d, serial = next_serial s\<rparr>)\<rparr>)"
  by (simp add: LookupOrCreateDevice_def libusb_open_def libusb_ref_device_def Let_def)

subsection \<open>Sequences of lookups\<close>

lemma count_list_open_rounds:
  "count_list (concat (replicate k [LibusbOpen d, LogWarning m])) (LibusbOpen d) = k"
  by (induction k) simp_all

lemma LookupOrCreateDevice_seq_tracked:
  "m_devices s d = Some w \<Longrightarrow>
   fst (LookupOrCreateDevice_seq fs d s) = replicate (length fs) (Some w) \<and>
   trace (snd (LookupOrCreateDevice_seq fs d s)) = trace s \<and>
   m_devices (snd (LookupOrCreateDevice_seq fs d s)) = m_devices s \<and>
   next_serial (snd (LookupOrCreateDevice_seq fs d s)) = next_serial s \<and>
   refcount (snd (LookupOrCreateDevice_seq fs d s)) = refcount s"
proof (induction fs arbitrary: s)
  case Nil
  show ?case by simp
next
  case (Cons f fs)
  let ?s0 = "s\<lparr>open_fails := (open_fails s)(d := f)\<rparr>"
  have t: "m_devices ?s0 d = Some w"
    using Cons.prems by simp
  have l: "LookupOrCreateDevice d ?s0 = (Some w, ?s0)"
    using t by (rule LookupOrCreateDevice_tracked)
  show ?case
    using Cons.IH [OF t] l by (simp add: split_beta)
qed

lemma LookupOrCreateDevice_seq_untracked:
  "m_devices s d = None \<Longrightarrow>
   fst (LookupOrCreateDevice_seq fs d s) =
     replicate (length (takeWhile (\<lambda>fails. fails) fs)) None @
     replicate (length fs - length (takeWhile (\<lambda>fails. fails) fs))
       (Some (UsbDeviceHandle \<lparr>dev = d, serial = next_serial s\<rparr>)) \<and>
   trace (snd (LookupOrCreateDevice_seq fs d s)) =
     trace s @
     concat (replicate (length (takeWhile (\<lambda>fails. fails) fs))
               [LibusbOpen d, LogWarning ''Could not open device.'']) @
     (if length (takeWhile (\<lambda>fails. fails) fs) < length fs then [LibusbOpen d] else []) \<and>
   next_serial (snd (LookupOrCreateDevice_seq fs d s)) =
     (if length (takeWhile (\<lambda>fails. fails) fs) < length fs then Suc (next_serial s) else next_serial s) \<and>
   m_devices (snd (LookupOrCreateDevice_seq fs d s)) =
     (if length (takeWhile (\<lambda>fails. fails) fs) < length fs
      then (m_devices s)(d \<mapsto> UsbDeviceHandle \<lparr>dev = d, serial = next_serial s\<rparr>)
      else m_devices s)"
proof (induction fs arbitrary: s)
  case Nil
  show ?case by simp
next
  case (Cons f fs)
  let ?s0 = "s\<lparr>open_fails := (open_fails s)(d := f)\<rparr>"
  let ?w = "UsbDeviceHandle \<lparr>dev = d, serial = next_serial s\<rparr>"
  have u: "m_devices ?s0 d = None"
    using Cons.prems by simp
  show ?case
  proof (cases f)
    case True
    let ?s1 = "emit (LogWarning ''Could not open device.'') (emit (LibusbOpen d) ?s0)"
    have l: "LookupOrCreateDevice d ?s0 = (None, ?s1)"
      using u True by (simp add: LookupOrCreateDevice_failed)
    have u1: "m_devices ?s1 d = None"
      using Cons.prems by simp
    have f1: "next_serial ?s1 = next_serial s" "trace ?s1 = trace s @ [LibusbOpen d, LogWarning ''Could not open device.'']"
      "m_devices ?s1 = m_devices s"
      by simp_all
    show ?thesis
      using Cons.IH [OF u1] l True f1 by (simp add: split_beta)
  next
    case False
    let ?s1 = "(libusb_ref_device d ((emit (LibusbOpen d) ?s0)\<lparr>next_serial := Suc (next_serial ?s0)\<rparr>))
        \<lparr>m_devices := (m_devices ?s0)(d \<mapsto> UsbDeviceHandle \<lparr>dev = d, serial = next_serial ?s0\<rparr>)\<rparr>"
    have l: "LookupOrCreateDevice d ?s0 = (Some ?w, ?s1)"
      using LookupOrCreateDevice_opened [of ?s0 d] u False by simp
    have t1: "m_devices ?s1 d = Some ?w"
      by simp
    have f1: "next_serial ?s1 = Suc (next_serial s)" "trace ?s1 = trace s @ [LibusbOpen d]"
      "m_devices ?s1 = (m_devices s)(d \<mapsto> ?w)"
      by (simp_all add: libusb_ref_device_def)
    show ?thesis
      using LookupOrCreateDevice_seq_tracked [OF t1, of fs] l False f1
      by (simp add: split_beta)
  qed
qed

subsection \<open>Facts of the small installation\<close>

lemma live_service_fields:
  "m_context live_service = Some 100"
  "m_event_handler live_service = Some 200"
  "m_devices live_service = Map.empty"
  "device_list live_service = Some [1, 2, 3]"
  "open_fails live_service = (\<lambda>d. d = 2)"
  "refcount live_service = (\<lambda>d. 0)"
  "next_serial live_service = 0"
  "trace live_service = []"
  by (simp_all add: live_service_def UsbService_ctor_def bare_backend_def)

lemma tracking_service_fields:
  "m_event_handler tracking_service = Some 200"
  "m_devices tracking_service = [1 \<mapsto> first_wrapper]"
  "open_fails tracking_service = (\<lambda>d. d = 2)"
  "next_serial tracking_service = 1"
  "trace tracking_service = [LibusbOpen 1]"
  by (simp_all add: tracking_service_def first_wrapper_def LookupOrCreateDevice_opened
      live_service_fields libusb_ref_device_def)

lemma DeviceMatches_live:
  "DeviceMatches s d v p =
     (case descriptors s d of None \<Rightarrow> False
      | Some x \<Rightarrow> idVendor x = v \<and> idProduct x = p)"
  by (simp add: DeviceMatches_def libusb_get_device_descriptor_def)

subsection \<open>Runs of the callback\<close>

lemma callback_runs_trace: "trace s' = trace s \<Longrightarrow> callback_runs s' = callback_runs s"
  by (simp add: callback_runs_def)

lemma callback_runs_emit:
  "callback_runs (emit e s) = (if is_RunCallback e then Suc (callback_runs s) else callback_runs s)"
  by (simp add: callback_runs_def)

lemma LookupOrCreateDevice_callback_runs:
  "callback_runs (snd (LookupOrCreateDevice d s)) = callback_runs s"
proof (cases "m_devices s d")
  case (Some w)
  then show ?thesis by (simp add: LookupOrCreateDevice_tracked)
next
  case None
  then show ?thesis
    by (cases "open_fails s d")
      (simp_all add: LookupOrCreateDevice_failed LookupOrCreateDevice_opened callback_runs_def
        libusb_ref_device_def)
qed

lemma FindDevicesImpl_loop_callback_runs:
  "callback_runs (snd (FindDevicesImpl_loop v vendor_id product_id devices s)) = callback_runs s"
proof (induction v arbitrary: devices s)
  case Nil
  show ?case by simp
next
  case (Cons it rest)
  show ?case
  proof (cases "DeviceMatches s (device it) vendor_id product_id")
    case False
    then show ?thesis by (simp add: Cons.IH)
  next
    case True
    obtain r s1 where l: "LookupOrCreateDevice (device it) s = (r, s1)"
      by (cases "LookupOrCreateDevice (device it) s")
    have "callback_runs s1 = callback_runs s"
      using LookupOrCreateDevice_callback_runs [of "device it" s] l by simp
    then show ?thesis
      using True l by (cases r) (simp_all add: Cons.IH)
  qed
qed

lemma EnumerateDevicesImpl_callback_runs:
  "callback_runs (snd (EnumerateDevicesImpl [] s)) = callback_runs s"
  by (simp add: EnumerateDevicesImpl_closed callback_runs_def split: option.splits)

lemma DeviceVector_dtor_callback_runs:
  "callback_runs (DeviceVector_dtor v s) = callback_runs s"
  by (simp add: DeviceVector_dtor_closed callback_runs_def)

lemma FindDevicesImpl_callback_runs:
  "callback_runs (snd (FindDevicesImpl vendor_id product_id devices success s)) =
     Suc (callback_runs s)"
proof (cases success)
  case False
  then show ?thesis by (simp add: FindDevicesImpl_def callback_runs_emit)
next
  case True
  obtain e s1 where en: "EnumerateDevicesImpl [] s = (e, s1)"
    by (cases "EnumerateDevicesImpl [] s")
  obtain f s2 where lo: "FindDevicesImpl_loop e vendor_id product_id [] s1 = (f, s2)"
    by (cases "FindDevicesImpl_loop e vendor_id product_id [] s1")
  have "callback_runs s1 = callback_runs s"
    using EnumerateDevicesImpl_callback_runs [of s] en by simp
  moreover have "callback_runs s2 = callback_runs s1"
    using FindDevicesImpl_loop_callback_runs [of e vendor_id product_id "[]" s1] lo by simp
  ultimately show ?thesis
    using True en lo
    by (simp add: FindDevicesImpl_def callback_runs_emit DeviceVector_dtor_callback_runs)
qed

text \<open>What a find appends to the trace: the callback's run comes last and is the only
  one.\<close>

lemma LookupOrCreateDevice_trace:
  "\<exists>mid. trace (snd (LookupOrCreateDevice d s)) = trace s @ mid \<and>
         filter is_RunCallback mid = []"
proof (cases "m_devices s d")
  case (Some w)
  then show ?thesis by (simp add: LookupOrCreateDevice_tracked)
next
  case None
  then show ?thesis
    by (cases "open_fails s d")
      (simp_all add: LookupOrCreateDevice_failed LookupOrCreateDevice_opened libusb_ref_device_def)
qed

lemma FindDevicesImpl_loop_trace:
  "\<exists>mid. trace (snd (FindDevicesImpl_loop v vendor_id product_id devices s)) = trace s @ mid \<and>
         filter is_RunCallback mid = []"
proof (induction v arbitrary: devices s)
  case Nil
  show ?case by simp
next
  case (Cons it rest)
  show ?case
  proof (cases "DeviceMatches s (device it) vendor_id product_id")
    case False
    then show ?thesis using Cons.IH [of devices s] by simp
  next
    case True
    obtain r s1 where l: "LookupOrCreateDevice (device it) s = (r, s1)"
      by (cases "LookupOrCreateDevice (device it) s")
    obtain m1 where m1: "trace s1 = trace s @ m1" "filter is_RunCallback m1 = []"
      using LookupOrCreateDevice_trace [of "device it" s] l by auto
    let ?devices = "case r of None \<Rightarrow> devices | Some wrapper \<Rightarrow> devices @ [wrapper]"
    have step: "FindDevicesImpl_loop (it # rest) vendor_id product_id devices s =
                FindDevicesImpl_loop rest vendor_id product_id ?devices s1"
      using True l by (cases r) simp_all
    obtain m2 where m2:
      "trace (snd (FindDevicesImpl_loop rest vendor_id product_id ?devices s1)) = trace s1 @ m2"
      "filter is_RunCallback m2 = []"
      using Cons.IH [of ?devices s1] by auto
    have "trace (snd (FindDevicesImpl_loop (it # rest) vendor_id product_id devices s)) =
            trace s @ (m1 @ m2) \<and> filter is_RunCallback (m1 @ m2) = []"
      using step m1 m2 by simp
    then show ?thesis by blast
  qed
qed

lemma FindDevicesImpl_trace:
  "\<exists>mid. trace (snd (FindDevicesImpl vendor_id product_id devices success s)) =
           trace s @ mid @ [RunCallback (fst (FindDevicesImpl vendor_id product_id devices success s))] \<and>
         filter is_RunCallback mid = []"
proof (cases success)
  case False
  then show ?thesis by (simp add: FindDevicesImpl_def)
next
  case True
  obtain e s1 where en: "EnumerateDevicesImpl [] s = (e, s1)"
    by (cases "EnumerateDevicesImpl [] s")
  obtain f s2 where lo: "FindDevicesImpl_loop e vendor_id product_id [] s1 = (f, s2)"
    by (cases "FindDevicesImpl_loop e vendor_id product_id [] s1")
  have t1: "trace s1 = trace s @ [LibusbGetDeviceList (m_context s)]"
    using en by (auto simp add: EnumerateDevicesImpl_closed split: option.splits)
  obtain m where m: "trace s2 = trace s1 @ m" "filter is_RunCallback m = []"
    using FindDevicesImpl_loop_trace [of e vendor_id product_id "[]" s1] lo by auto
  have "trace (snd (FindDevicesImpl vendor_id product_id devices success s)) =
          trace s @ ([LibusbGetDeviceList (m_context s)] @ m) @
          [RunCallback (fst (FindDevicesImpl vendor_id product_id devices success s))] \<and>
        filter is_RunCallback ([LibusbGetDeviceList (m_context s)] @ m) = []"
    using True en lo t1 m by (simp add: FindDevicesImpl_def DeviceVector_dtor_closed)
  then show ?thesis by blast
qed

lemma snapshot_net_refcount:
  "refcount (DeviceVector_dtor (fst (EnumerateDevicesImpl [] s)) (snd (EnumerateDevicesImpl [] s))) d =
     refcount s d + (case device_list s of None \<Rightarrow> 0 | Some ds \<Rightarrow> int (count_list ds d))"
  by (simp add: EnumerateDevicesImpl_closed DeviceVector_dtor_closed comp_def
      split: option.splits)

subsection \<open>The registry\<close>

text \<open>
  C1. A sequence of calls of \<open>LookupOrCreateDevice\<close> on one device, the backend being
  asked anew at each call. When the device is already tracked, every caller gets the
  tracked wrapper, nothing is appended to the trace and the map stays as it is: no
  backend open is called. When it is not tracked, every call up to and including the
  first whose open succeeds calls the backend's open once and no later call does: the
  callers whose open failed get \<open>NULL\<close> and a warning each, the first open that
  succeeds is the only one that succeeds, its wrapper is stored, and it is the wrapper
  every later caller gets.
\<close>

theorem LookupOrCreateDevice_seq_one_handle:
  "(\<forall>w. m_devices s d = Some w \<longrightarrow>
      fst (LookupOrCreateDevice_seq fs d s) = replicate (length fs) (Some w) \<and>
      trace (snd (LookupOrCreateDevice_seq fs d s)) = trace s \<and>
      m_devices (snd (LookupOrCreateDevice_seq fs d s)) = m_devices s \<and>
      open_calls d (snd (LookupOrCreateDevice_seq fs d s)) = open_calls d s \<and>
      opens_succeeded (snd (LookupOrCreateDevice_seq fs d s)) = opens_succeeded s) \<and>
   (m_devices s d = None \<longrightarrow>
      fst (LookupOrCreateDevice_seq fs d s) =
        replicate (failed_calls fs) None @
        replicate (length fs - failed_calls fs)
          (Some (UsbDeviceHandle \<lparr>dev = d, serial = next_serial s\<rparr>)) \<and>
      trace (snd (LookupOrCreateDevice_seq fs d s)) =
        trace s @
        concat (replicate (failed_calls fs) [LibusbOpen d, LogWarning ''Could not open device.'']) @
        (if failed_calls fs < length fs then [LibusbOpen d] else []) \<and>
      open_calls d (snd (LookupOrCreateDevice_seq fs d s)) =
        open_calls d s + failed_calls fs + (if failed_calls fs < length fs then 1 else 0) \<and>
      opens_succeeded (snd (LookupOrCreateDevice_seq fs d s)) =
        opens_succeeded s + (if failed_calls fs < length fs then 1 else 0) \<and>
      m_devices (snd (LookupOrCreateDevice_seq fs d s)) =
        (if failed_calls fs < length fs
         then (m_devices s)(d \<mapsto> UsbDeviceHandle \<lparr>dev = d, serial = next_serial s\<rparr>)
         else m_devices s))"
proof (intro conjI allI impI)
  fix w
  assume t: "m_devices s d = Some w"
  note r = LookupOrCreateDevice_seq_tracked [OF t, of fs]
  show "fst (LookupOrCreateDevice_seq fs d s) = replicate (length fs) (Some w)"
    using r by simp
  show "trace (snd (LookupOrCreateDevice_seq fs d s)) = trace s"
    using r by simp
  show "m_devices (snd (LookupOrCreateDevice_seq fs d s)) = m_devices s"
    using r by simp
  show "open_calls d (snd (LookupOrCreateDevice_seq fs d s)) = open_calls d s"
    using r by (simp add: open_calls_def)
  show "opens_succeeded (snd (LookupOrCreateDevice_seq fs d s)) = opens_succeeded s"
    using r by (simp add: opens_succeeded_def)
next
  assume u: "m_devices s d = None"
  note r = LookupOrCreateDevice_seq_untracked [OF u, of fs, folded failed_calls_def]
  show "fst (LookupOrCreateDevice_seq fs d s) =
        replicate (failed_calls fs) None @
        replicate (length fs - failed_calls fs)
          (Some (UsbDeviceHandle \<lparr>dev = d, serial = next_serial s\<rparr>))"
    using r by simp
  show "trace (snd (LookupOrCreateDevice_seq fs d s)) =
        trace s @
        concat (replicate (failed_calls fs) [LibusbOpen d, LogWarning ''Could not open device.'']) @
        (if failed_calls fs < length fs then [LibusbOpen d] else [])"
    using r by simp
  then show "open_calls d (snd (LookupOrCreateDevice_seq fs d s)) =
        open_calls d s + failed_calls fs + (if failed_calls fs < length fs then 1 else 0)"
    by (simp add: open_calls_def count_list_open_rounds)
  show "opens_succeeded (snd (LookupOrCreateDevice_seq fs d s)) =
        opens_succeeded s + (if failed_calls fs < length fs then 1 else 0)"
    using r by (simp add: opens_succeeded_def)
  show "m_devices (snd (LookupOrCreateDevice_seq fs d s)) =
        (if failed_calls fs < length fs
         then (m_devices s)(d \<mapsto> UsbDeviceHandle \<lparr>dev = d, serial = next_serial s\<rparr>)
         else m_devices s)"
    using r by simp
qed

theorem LookupOrCreateDevice_seq_one_handle_witness:
  "m_devices live_service 1 = None \<and>
   fst (LookupOrCreateDevice_seq [True, True, False, True] 1 live_service) =
     [None, None, Some first_wrapper, Some first_wrapper] \<and>
   open_calls 1 (snd (LookupOrCreateDevice_seq [True, True, False, True] 1 live_service)) = 3 \<and>
   opens_succeeded (snd (LookupOrCreateDevice_seq [True, True, False, True] 1 live_service)) = 1 \<and>
   m_devices tracking_service 1 = Some first_wrapper \<and>
   fst (LookupOrCreateDevice_seq [False, True, False] 1 tracking_service) =
     [Some first_wrapper, Some first_wrapper, Some first_wrapper] \<and>
   open_calls 1 (snd (LookupOrCreateDevice_seq [False, True, False] 1 tracking_service)) =
     open_calls 1 tracking_service"
proof -
  have a: "m_devices live_service 1 = None"
    by (simp add: live_service_fields)
  have b: "m_devices tracking_service 1 = Some first_wrapper"
    by (simp add: tracking_service_fields)
  have c: "failed_calls [True, True, False, True] = 2"
    by (simp add: failed_calls_def)
  have e: "open_calls 1 live_service = 0" "opens_succeeded live_service = 0"
    "next_serial live_service = 0"
    by (simp_all add: open_calls_def opens_succeeded_def live_service_fields)
  show ?thesis
    using LookupOrCreateDevice_seq_one_handle [of live_service 1 "[True, True, False, True]"]
      LookupOrCreateDevice_seq_one_handle [of tracking_service 1 "[False, True, False]"]
      a b c e
    by (simp add: first_wrapper_def numeral_2_eq_2)
qed

text \<open>An open that fails is not remembered: two calls for device 2, which refuses to
  open both times, make two backend open calls.\<close>

theorem failed_open_is_retried:
  "\<not> open_calls 2 (snd (LookupOrCreateDevice_seq [True, True] 2 live_service))
       \<le> open_calls 2 live_service + 1"
  by (simp add: LookupOrCreateDevice_def libusb_open_def open_calls_def emit_def
      live_service_def UsbService_ctor_def bare_backend_def)

text \<open>
  C7. When the identity is not tracked and the backend's open fails,
  \<open>LookupOrCreateDevice\<close> makes the open call, logs the warning and returns \<open>NULL\<close>;
  the state changes in its trace only, so the registry map has no new entry.
\<close>

theorem LookupOrCreateDevice_open_failure:
  assumes "m_devices s d = None" and "open_fails s d"
  shows "LookupOrCreateDevice d s =
           (None, s\<lparr>trace := trace s @ [LibusbOpen d, LogWarning ''Could not open device.'']\<rparr>)
         \<and> m_devices (snd (LookupOrCreateDevice d s)) = m_devices s"
  using assms by (simp add: LookupOrCreateDevice_failed emit_def)

theorem LookupOrCreateDevice_open_failure_witness:
  "m_devices live_service 2 = None \<and> open_fails live_service 2 \<and>
   LookupOrCreateDevice 2 live_service =
     (None, live_service\<lparr>trace := [LibusbOpen 2, LogWarning ''Could not open device.'']\<rparr>) \<and>
   m_devices (snd (LookupOrCreateDevice 2 live_service)) = Map.empty"
proof -
  have a: "m_devices live_service 2 = None"
    by (simp add: live_service_def UsbService_ctor_def)
  have b: "open_fails live_service 2"
    by (simp add: live_service_def UsbService_ctor_def bare_backend_def)
  have c: "trace live_service = []" "m_devices live_service = Map.empty"
    by (simp_all add: live_service_def UsbService_ctor_def bare_backend_def)
  show ?thesis
    using LookupOrCreateDevice_open_failure [OF a b] a b c by simp
qed

text \<open>
  C8. \<open>CloseDevice\<close> on a wrapper whose device is not a key of the registry map logs
  the warning and does nothing else: the state changes in its trace only, by that one
  warning, so the map is as it was and \<open>libusb_close\<close> is not called. The service is
  assumed constructed (\<open>m_event_handler\<close> is set by the constructor and never cleared).
\<close>

theorem CloseDevice_untracked:
  assumes "m_devices s (libusb_get_device (handle w)) = None"
    and "m_event_handler s \<noteq> None"
  shows "CloseDevice p w s =
           Inr (s\<lparr>trace := trace s @ [LogWarning ''CloseDevice called for device we're not tracking!'']\<rparr>)"
  using assms by (simp add: CloseDevice_def emit_def)

theorem CloseDevice_untracked_witness:
  "m_devices live_service (libusb_get_device (handle stray_wrapper)) = None \<and>
   m_event_handler live_service \<noteq> None \<and>
   CloseDevice debug_desktop stray_wrapper live_service =
     Inr (live_service\<lparr>trace := [LogWarning ''CloseDevice called for device we're not tracking!'']\<rparr>)"
proof -
  have a: "m_devices live_service (libusb_get_device (handle stray_wrapper)) = None"
    by (simp add: live_service_def UsbService_ctor_def)
  have b: "m_event_handler live_service \<noteq> None"
    by (simp add: live_service_def UsbService_ctor_def)
  have c: "trace live_service = []"
    by (simp add: live_service_def UsbService_ctor_def bare_backend_def)
  show ?thesis
    using CloseDevice_untracked [OF a b, of debug_desktop] a b c by simp
qed

text \<open>
  C9. \<open>CloseDevice\<close> on a wrapper whose device is tracked returns normally; afterwards
  the device is not a key of the registry map and \<open>libusb_close\<close> has been called once
  on the wrapper's handle. The next \<open>LookupOrCreateDevice\<close> for the device makes a new
  backend open call, and what it returns is \<open>NULL\<close> or a wrapper of the handle that
  this new call opened, never the old map entry.
\<close>

theorem CloseDevice_then_reopen:
  assumes "m_devices s (libusb_get_device (handle w)) \<noteq> None"
    and "m_event_handler s \<noteq> None"
  shows "\<exists>s'. CloseDevice p w s = Inr s' \<and>
           m_devices s' (libusb_get_device (handle w)) = None \<and>
           count_list (trace s') (LibusbClose (handle w)) =
             Suc (count_list (trace s) (LibusbClose (handle w))) \<and>
           open_calls (libusb_get_device (handle w))
               (snd (LookupOrCreateDevice (libusb_get_device (handle w)) s')) =
             Suc (open_calls (libusb_get_device (handle w)) s') \<and>
           fst (LookupOrCreateDevice (libusb_get_device (handle w)) s') =
             (if open_fails s (libusb_get_device (handle w)) then None
              else Some (UsbDeviceHandle
                          \<lparr>dev = libusb_get_device (handle w), serial = next_serial s\<rparr>))"
proof -
  let ?d = "libusb_get_device (handle w)"
  let ?s' = "libusb_close (handle w) (s\<lparr>m_devices := (m_devices s)(?d := None)\<rparr>)"
  have closed: "CloseDevice p w s = Inr ?s'"
    using assms by (auto simp add: CloseDevice_def Let_def)
  have absent: "m_devices ?s' ?d = None"
    by (simp add: libusb_close_def libusb_unref_device_def emit_def)
  have tr: "trace ?s' = trace s @ [LibusbClose (handle w)]"
    by (simp add: libusb_close_def libusb_unref_device_def emit_def)
  have same: "open_fails ?s' = open_fails s" "next_serial ?s' = next_serial s"
    by (simp_all add: libusb_close_def libusb_unref_device_def emit_def)
  have reopen: "open_calls ?d (snd (LookupOrCreateDevice ?d ?s')) = Suc (open_calls ?d ?s')"
    using absent
    by (cases "open_fails ?s' ?d")
      (simp_all add: LookupOrCreateDevice_failed LookupOrCreateDevice_opened open_calls_def
        libusb_ref_device_def emit_def)
  have res: "fst (LookupOrCreateDevice ?d ?s') =
      (if open_fails s ?d then None
       else Some (UsbDeviceHandle \<lparr>dev = ?d, serial = next_serial s\<rparr>))"
    using absent same
    by (cases "open_fails ?s' ?d")
      (simp_all add: LookupOrCreateDevice_failed LookupOrCreateDevice_opened)
  show ?thesis
    using closed absent tr reopen res by simp
qed

theorem CloseDevice_then_reopen_witness:
  "m_devices tracking_service (libusb_get_device (handle first_wrapper)) \<noteq> None \<and>
   m_event_handler tracking_service \<noteq> None \<and>
   (\<exists>s'. CloseDevice debug_desktop first_wrapper tracking_service = Inr s' \<and>
      m_devices s' 1 = None \<and>
      open_calls 1 (snd (LookupOrCreateDevice 1 s')) = Suc (open_calls 1 s') \<and>
      fst (LookupOrCreateDevice 1 s') = Some (UsbDeviceHandle \<lparr>dev = 1, serial = 1\<rparr>))"
proof -
  have d: "libusb_get_device (handle first_wrapper) = 1"
    by (simp add: libusb_get_device_def first_wrapper_def)
  have a: "m_devices tracking_service (libusb_get_device (handle first_wrapper)) \<noteq> None"
    by (simp add: d tracking_service_fields)
  have b: "m_event_handler tracking_service \<noteq> None"
    by (simp add: tracking_service_fields)
  show ?thesis
    using CloseDevice_then_reopen [OF a b, of debug_desktop] a b
    by (auto simp add: d tracking_service_fields)
qed

subsection \<open>Matching\<close>

text \<open>
  C10. \<open>DeviceMatches\<close> is false when the descriptor read fails; when it succeeds the
  result is true exactly when both 16-bit fields of the descriptor equal the ids asked
  for. There is no wildcard value.
\<close>

theorem DeviceMatches_exact:
  "(libusb_get_device_descriptor d s = None \<longrightarrow> \<not> DeviceMatches s d vendor_id product_id) \<and>
   (\<forall>descriptor. libusb_get_device_descriptor d s = Some descriptor \<longrightarrow>
      DeviceMatches s d vendor_id product_id =
        (idVendor descriptor = vendor_id \<and> idProduct descriptor = product_id))"
  by (simp add: DeviceMatches_def)

theorem DeviceMatches_exact_witness:
  "libusb_get_device_descriptor 3 live_service = None \<and>
   \<not> DeviceMatches live_service 3 0x18D1 0x4EE1 \<and>
   libusb_get_device_descriptor 1 live_service = Some \<lparr>idVendor = 0x18D1, idProduct = 0x4EE1\<rparr> \<and>
   DeviceMatches live_service 1 0x18D1 0x4EE1 \<and>
   \<not> DeviceMatches live_service 1 0x18D1 0x4EE2 \<and>
   \<not> DeviceMatches live_service 1 0x18D0 0x4EE1"
proof -
  have a: "libusb_get_device_descriptor 3 live_service = None"
    by (simp add: libusb_get_device_descriptor_def live_service_def UsbService_ctor_def
        bare_backend_def)
  have b: "libusb_get_device_descriptor 1 live_service =
             Some \<lparr>idVendor = 0x18D1, idProduct = 0x4EE1\<rparr>"
    by (simp add: libusb_get_device_descriptor_def live_service_def UsbService_ctor_def
        bare_backend_def)
  show ?thesis
    using DeviceMatches_exact [of 3 live_service "0x18D1" "0x4EE1"]
      DeviceMatches_exact [of 1 live_service "0x18D1" "0x4EE1"]
      DeviceMatches_exact [of 1 live_service "0x18D1" "0x4EE2"]
      DeviceMatches_exact [of 1 live_service "0x18D0" "0x4EE1"] a b
    by simp
qed

subsection \<open>Finding devices\<close>

text \<open>
  C5. A find request completed with the success flag false clears the caller's vector
  and runs the callback on the empty vector; nothing else happens, so the backend's open
  is called for no device.
\<close>

theorem FindDevicesImpl_denied:
  "FindDevicesImpl vendor_id product_id devices False s =
     ([], s\<lparr>trace := trace s @ [RunCallback []]\<rparr>) \<and>
   broker_reply r False devices s = ([], s\<lparr>trace := trace s @ [RunCallback []]\<rparr>) \<and>
   open_calls d (snd (broker_reply r False devices s)) = open_calls d s"
  by (simp add: FindDevicesImpl_def broker_reply_def emit_def open_calls_def)

text \<open>
  C6. A find request on a constructed service, path by path. Where no broker is asked
  (another platform, or a ChromeOS build on another machine) \<open>FindDevices\<close> is
  \<open>FindDevicesImpl\<close> with the flag set and leaves one more run of the callback. Where
  the broker's client is at hand, \<open>FindDevices\<close> sends it the request with the ids and
  the interface and returns with the same ids bound and no run of the callback yet.
  Where the client cannot be obtained, a build without \<open>DCHECK\<close> runs the callback
  once, at once, and a build with \<open>DCHECK\<close> stops at the assertion with no run. The
  broker's answer, granted or denied, is \<open>FindDevicesImpl\<close> on the bound ids, and every
  run of \<open>FindDevicesImpl\<close> appends events of which the last, and no other, is a run
  of the callback on the vector it returns.
\<close>

theorem FindDevices_callback_once:
  assumes "m_event_handler s \<noteq> None"
  shows
    "(\<not> (os_chromeos p \<and> IsRunningOnChromeOS p) \<longrightarrow>
        FindDevices p vendor_id product_id interface_id devices s =
          Inr (Finished (fst (FindDevicesImpl vendor_id product_id devices True s))
                        (snd (FindDevicesImpl vendor_id product_id devices True s))) \<and>
        callback_runs (world_after s (FindDevices p vendor_id product_id interface_id devices s)) =
          Suc (callback_runs s)) \<and>
     (os_chromeos p \<and> IsRunningOnChromeOS p \<and> GetPermissionBrokerClient p \<noteq> None \<longrightarrow>
        FindDevices p vendor_id product_id interface_id devices s =
          Inr (AwaitingGrant
                \<lparr>bound_vendor_id = vendor_id, bound_product_id = product_id\<rparr>
                (s\<lparr>trace := trace s @ [RequestUsbAccess vendor_id product_id interface_id]\<rparr>)) \<and>
        callback_runs (world_after s (FindDevices p vendor_id product_id interface_id devices s)) =
          callback_runs s) \<and>
     (os_chromeos p \<and> IsRunningOnChromeOS p \<and> GetPermissionBrokerClient p = None \<and>
      \<not> dcheck_is_on p \<longrightarrow>
        FindDevices p vendor_id product_id interface_id devices s =
          Inr (Finished devices (s\<lparr>trace := trace s @ [RunCallback devices]\<rparr>)) \<and>
        callback_runs (world_after s (FindDevices p vendor_id product_id interface_id devices s)) =
          Suc (callback_runs s)) \<and>
     (os_chromeos p \<and> IsRunningOnChromeOS p \<and> GetPermissionBrokerClient p = None \<and>
      dcheck_is_on p \<longrightarrow>
        FindDevices p vendor_id product_id interface_id devices s =
          Inl (DCheckFailed ''Could not get permission broker client.'') \<and>
        callback_runs (world_after s (FindDevices p vendor_id product_id interface_id devices s)) =
          callback_runs s) \<and>
     broker_reply \<lparr>bound_vendor_id = vendor_id, bound_product_id = product_id\<rparr>
         success later_devices later =
       FindDevicesImpl vendor_id product_id later_devices success later \<and>
     callback_runs (snd (FindDevicesImpl vendor_id product_id later_devices success later)) =
       Suc (callback_runs later) \<and>
     (\<exists>mid. trace (snd (FindDevicesImpl vendor_id product_id later_devices success later)) =
              trace later @ mid @
              [RunCallback (fst (FindDevicesImpl vendor_id product_id later_devices success later))] \<and>
            filter is_RunCallback mid = [])"
proof -
  have direct: "\<not> (os_chromeos p \<and> IsRunningOnChromeOS p) \<longrightarrow>
        FindDevices p vendor_id product_id interface_id devices s =
          Inr (Finished (fst (FindDevicesImpl vendor_id product_id devices True s))
                        (snd (FindDevicesImpl vendor_id product_id devices True s)))"
    using assms by (auto simp add: FindDevices_def split_beta)
  have direct_runs: "\<not> (os_chromeos p \<and> IsRunningOnChromeOS p) \<longrightarrow>
        callback_runs (world_after s (FindDevices p vendor_id product_id interface_id devices s)) =
          Suc (callback_runs s)"
    using direct by (auto simp add: world_after_def FindDevicesImpl_callback_runs)
  have asked: "os_chromeos p \<and> IsRunningOnChromeOS p \<and> GetPermissionBrokerClient p \<noteq> None \<longrightarrow>
        FindDevices p vendor_id product_id interface_id devices s =
          Inr (AwaitingGrant
                \<lparr>bound_vendor_id = vendor_id, bound_product_id = product_id\<rparr>
                (s\<lparr>trace := trace s @ [RequestUsbAccess vendor_id product_id interface_id]\<rparr>))"
    using assms by (auto simp add: FindDevices_def emit_def)
  have asked_runs: "os_chromeos p \<and> IsRunningOnChromeOS p \<and> GetPermissionBrokerClient p \<noteq> None \<longrightarrow>
        callback_runs (world_after s (FindDevices p vendor_id product_id interface_id devices s)) =
          callback_runs s"
    using asked by (auto simp add: world_after_def callback_runs_def)
  have quiet: "os_chromeos p \<and> IsRunningOnChromeOS p \<and> GetPermissionBrokerClient p = None \<and>
      \<not> dcheck_is_on p \<longrightarrow>
        FindDevices p vendor_id product_id interface_id devices s =
          Inr (Finished devices (s\<lparr>trace := trace s @ [RunCallback devices]\<rparr>))"
    by (simp add: FindDevices_def emit_def)
  have quiet_runs: "os_chromeos p \<and> IsRunningOnChromeOS p \<and> GetPermissionBrokerClient p = None \<and>
      \<not> dcheck_is_on p \<longrightarrow>
        callback_runs (world_after s (FindDevices p vendor_id product_id interface_id devices s)) =
          Suc (callback_runs s)"
    using quiet by (auto simp add: world_after_def callback_runs_def)
  have stopped: "os_chromeos p \<and> IsRunningOnChromeOS p \<and> GetPermissionBrokerClient p = None \<and>
      dcheck_is_on p \<longrightarrow>
        FindDevices p vendor_id product_id interface_id devices s =
          Inl (DCheckFailed ''Could not get permission broker client.'')"
    using assms by (auto simp add: FindDevices_def)
  have stopped_runs: "os_chromeos p \<and> IsRunningOnChromeOS p \<and> GetPermissionBrokerClient p = None \<and>
      dcheck_is_on p \<longrightarrow>
        callback_runs (world_after s (FindDevices p vendor_id product_id interface_id devices s)) =
          callback_runs s"
    using stopped by (auto simp add: world_after_def)
  have reply: "broker_reply \<lparr>bound_vendor_id = vendor_id, bound_product_id = product_id\<rparr>
         success later_devices later =
       FindDevicesImpl vendor_id product_id later_devices success later"
    by (simp add: broker_reply_def)
  show ?thesis
    using direct direct_runs asked asked_runs quiet quiet_runs stopped stopped_runs reply
      FindDevicesImpl_callback_runs [of vendor_id product_id later_devices success later]
      FindDevicesImpl_trace [of vendor_id product_id later_devices success later]
    by blast
qed


theorem FindDevices_callback_once_witness:
  "m_event_handler live_service \<noteq> None \<and>
   \<not> os_chromeos debug_desktop \<and>
   callback_runs (world_after live_service
       (FindDevices debug_desktop 0x18D1 0x4EE1 0 [] live_service)) = 1 \<and>
   os_chromeos chromeos_with_broker \<and> IsRunningOnChromeOS chromeos_with_broker \<and>
   GetPermissionBrokerClient chromeos_with_broker \<noteq> None \<and>
   FindDevices chromeos_with_broker 0x18D1 0x4EE1 0 [] live_service =
     Inr (AwaitingGrant \<lparr>bound_vendor_id = 0x18D1, bound_product_id = 0x4EE1\<rparr>
           (live_service\<lparr>trace := [RequestUsbAccess 0x18D1 0x4EE1 0]\<rparr>)) \<and>
   callback_runs (world_after live_service
       (FindDevices chromeos_with_broker 0x18D1 0x4EE1 0 [] live_service)) = 0 \<and>
   callback_runs (snd (broker_reply \<lparr>bound_vendor_id = 0x18D1, bound_product_id = 0x4EE1\<rparr> True []
       (live_service\<lparr>trace := [RequestUsbAccess 0x18D1 0x4EE1 0]\<rparr>))) = 1 \<and>
   callback_runs (snd (broker_reply \<lparr>bound_vendor_id = 0x18D1, bound_product_id = 0x4EE1\<rparr> False []
       (live_service\<lparr>trace := [RequestUsbAccess 0x18D1 0x4EE1 0]\<rparr>))) = 1"
proof -
  let ?asked = "live_service\<lparr>trace := [RequestUsbAccess 0x18D1 0x4EE1 0]\<rparr>"
  have a: "m_event_handler live_service \<noteq> None"
    by (simp add: live_service_fields)
  have b: "\<not> os_chromeos debug_desktop"
    by (simp add: debug_desktop_def)
  have c: "os_chromeos chromeos_with_broker \<and> IsRunningOnChromeOS chromeos_with_broker \<and>
           GetPermissionBrokerClient chromeos_with_broker \<noteq> None"
    by (simp add: chromeos_with_broker_def)
  have z: "callback_runs live_service = 0" "callback_runs ?asked = 0" "trace live_service = []"
    by (simp_all add: callback_runs_def live_service_fields)
  have d: "callback_runs (world_after live_service
               (FindDevices debug_desktop 0x18D1 0x4EE1 0 [] live_service)) =
             Suc (callback_runs live_service)"
    using FindDevices_callback_once [OF a, of debug_desktop "0x18D1" "0x4EE1" 0 "[]"] b
    by blast
  have g: "FindDevices chromeos_with_broker 0x18D1 0x4EE1 0 [] live_service =
             Inr (AwaitingGrant \<lparr>bound_vendor_id = 0x18D1, bound_product_id = 0x4EE1\<rparr>
                   (live_service\<lparr>trace := trace live_service @ [RequestUsbAccess 0x18D1 0x4EE1 0]\<rparr>))"
    "callback_runs (world_after live_service
         (FindDevices chromeos_with_broker 0x18D1 0x4EE1 0 [] live_service)) =
       callback_runs live_service"
    using FindDevices_callback_once [OF a, of chromeos_with_broker "0x18D1" "0x4EE1" 0 "[]"] c
    by blast+
  have r: "callback_runs (snd (broker_reply \<lparr>bound_vendor_id = 0x18D1, bound_product_id = 0x4EE1\<rparr>
               success [] ?asked)) = Suc (callback_runs ?asked)" for success
    using FindDevices_callback_once [OF a, of chromeos_with_broker "0x18D1" "0x4EE1" 0 "[]"
        success "[]" ?asked]
    by simp
  show ?thesis
    using a b c d g r [of True] r [of False] z by simp
qed

text \<open>A ChromeOS build with \<open>DCHECK\<close> that cannot get the broker's client: the request
  ends at the assertion and the callback has not run.\<close>

theorem FindDevices_failed_dcheck_runs_no_callback:
  "m_event_handler live_service \<noteq> None \<and>
   FindDevices debug_chromeos_no_broker 0x18D1 0x4EE1 0 [] live_service =
     Inl (DCheckFailed ''Could not get permission broker client.'') \<and>
   callback_runs (world_after live_service
       (FindDevices debug_chromeos_no_broker 0x18D1 0x4EE1 0 [] live_service)) \<noteq>
     Suc (callback_runs live_service)"
  by (simp add: FindDevices_def debug_chromeos_no_broker_def world_after_def live_service_fields)

text \<open>
  C3. When the broker is required and its client cannot be obtained, a build without
  \<open>DCHECK\<close> runs the callback at once and enumerates nothing, but it does not clear the
  caller's vector: what the callback finds there is what the caller passed in, here a
  vector of one wrapper. A build with \<open>DCHECK\<close> stops at the assertion instead.
\<close>

theorem FindDevices_no_broker_client_keeps_vector:
  "FindDevices release_chromeos_no_broker vendor_id product_id interface_id devices s =
     Inr (Finished devices (s\<lparr>trace := trace s @ [RunCallback devices]\<rparr>)) \<and>
   FindDevices release_chromeos_no_broker 0x18D1 0x4EE1 0 [stray_wrapper] live_service =
     Inr (Finished [stray_wrapper] (live_service\<lparr>trace := [RunCallback [stray_wrapper]]\<rparr>)) \<and>
   FindDevices (release_chromeos_no_broker\<lparr>dcheck_is_on := True\<rparr>) 0x18D1 0x4EE1 0 []
       live_service =
     Inl (DCheckFailed ''Could not get permission broker client.'')"
  by (simp add: FindDevices_def release_chromeos_no_broker_def emit_def live_service_fields)

subsection \<open>Reference counts of an enumeration\<close>

text \<open>
  C4. Constructing or copying a token adds one reference to its device and destroying it
  removes one. An enumeration followed by the destruction of every token of its snapshot
  nevertheless leaves each listed device with one reference more than before, once for
  each time it is listed: the explicit \<open>libusb_ref_device\<close> in the loop of
  \<open>EnumerateDevicesImpl\<close> is never given back. In the small installation a find that
  matches no device, and so opens none, raises the count of device 3 from 0 to 1.
\<close>

theorem enumeration_keeps_one_reference:
  "refcount (snd (RefCountedPlatformUsbDevice_ctor d s)) d = refcount s d + 1 \<and>
   refcount (snd (RefCountedPlatformUsbDevice_copy t s)) (device t) = refcount s (device t) + 1 \<and>
   refcount (RefCountedPlatformUsbDevice_dtor t s) (device t) = refcount s (device t) - 1 \<and>
   refcount (DeviceVector_dtor (fst (EnumerateDevicesImpl [] s)) (snd (EnumerateDevicesImpl [] s))) d =
     refcount s d + (case device_list s of None \<Rightarrow> 0 | Some ds \<Rightarrow> int (count_list ds d)) \<and>
   fst (FindDevicesImpl 0 0 [] True live_service) = [] \<and>
   refcount live_service 3 = 0 \<and>
   refcount (snd (FindDevicesImpl 0 0 [] True live_service)) 3 = 1"
proof -
  have "fst (FindDevicesImpl 0 0 [] True live_service) = [] \<and>
        refcount (snd (FindDevicesImpl 0 0 [] True live_service)) 3 = 1"
    by (simp add: FindDevicesImpl_def EnumerateDevicesImpl_closed DeviceVector_dtor_closed
        DeviceMatches_live emit_def live_service_def UsbService_ctor_def bare_backend_def)
  then show ?thesis
    by (simp add: snapshot_net_refcount RefCountedPlatformUsbDevice_ctor_def
        RefCountedPlatformUsbDevice_copy_def RefCountedPlatformUsbDevice_dtor_def
        libusb_ref_device_def libusb_unref_device_def live_service_fields)
qed

subsection \<open>After shutdown\<close>

text \<open>
  C2. \<open>Shutdown\<close> sets \<open>m_context\<close> to \<open>NULL\<close> and leaves \<open>m_event_handler\<close> as it
  was, so the condition that \<open>FindDevices\<close> and \<open>CloseDevice\<close> assert is the same
  before and after. In a build with \<open>DCHECK\<close>, on the small installation after
  \<open>Shutdown\<close>: \<open>FindDevices\<close> passes its assertion, asks the backend for the device
  list with a \<open>NULL\<close> context and opens device 1; \<open>EnumerateDevices\<close>, which asserts
  nothing, does the same for all devices; \<open>CloseDevice\<close> passes its assertion and
  calls \<open>libusb_close\<close>.
\<close>

theorem Shutdown_leaves_event_handler_set:
  "m_event_handler (Shutdown s) = m_event_handler s \<and>
   m_context (Shutdown s) = None \<and>
   FindDevices debug_desktop 0x18D1 0x4EE1 0 [] (Shutdown live_service) =
     Inr (Finished [first_wrapper]
           (live_service
              \<lparr>m_context := None, m_running := False,
               m_devices := [1 \<mapsto> first_wrapper],
               refcount := (\<lambda>d. if d = 1 then 2 else if d = 2 \<or> d = 3 then 1 else 0),
               next_serial := 1,
               trace := [LibusbExit (Some 100), LibusbGetDeviceList None, LibusbOpen 1,
                         RunCallback [first_wrapper]]\<rparr>)) \<and>
   trace (snd (EnumerateDevices [] (Shutdown live_service))) =
     [LibusbExit (Some 100), LibusbGetDeviceList None, LibusbOpen 1, LibusbOpen 2,
      LogWarning ''Could not open device.'', LibusbOpen 3] \<and>
   CloseDevice debug_desktop first_wrapper (Shutdown tracking_service) =
     Inr (tracking_service
           \<lparr>m_context := None, m_running := False, m_devices := Map.empty,
            refcount := (\<lambda>d. 0),
            trace := [LibusbOpen 1, LibusbExit (Some 100), LibusbClose (handle first_wrapper)]\<rparr>)"
proof -
  have a: "m_event_handler (Shutdown s) = m_event_handler s \<and> m_context (Shutdown s) = None"
    by (simp add: Shutdown_def emit_def Let_def)
  have b: "FindDevices debug_desktop 0x18D1 0x4EE1 0 [] (Shutdown live_service) =
     Inr (Finished [first_wrapper]
           (live_service
              \<lparr>m_context := None, m_running := False,
               m_devices := [1 \<mapsto> first_wrapper],
               refcount := (\<lambda>d. if d = 1 then 2 else if d = 2 \<or> d = 3 then 1 else 0),
               next_serial := 1,
               trace := [LibusbExit (Some 100), LibusbGetDeviceList None, LibusbOpen 1,
                         RunCallback [first_wrapper]]\<rparr>))"
    by (simp add: FindDevices_def debug_desktop_def FindDevicesImpl_def EnumerateDevicesImpl_closed
        DeviceVector_dtor_closed DeviceMatches_live LookupOrCreateDevice_def libusb_open_def
        libusb_ref_device_def emit_def first_wrapper_def live_service_def UsbService_ctor_def
        Shutdown_def bare_backend_def Let_def fun_eq_iff)
  have c: "trace (snd (EnumerateDevices [] (Shutdown live_service))) =
     [LibusbExit (Some 100), LibusbGetDeviceList None, LibusbOpen 1, LibusbOpen 2,
      LogWarning ''Could not open device.'', LibusbOpen 3]"
    by (simp add: EnumerateDevices_def EnumerateDevicesImpl_closed
        DeviceVector_dtor_closed LookupOrCreateDevice_def libusb_open_def
        libusb_ref_device_def emit_def live_service_def UsbService_ctor_def
        Shutdown_def bare_backend_def Let_def)
  have d: "CloseDevice debug_desktop first_wrapper (Shutdown tracking_service) =
     Inr (tracking_service
           \<lparr>m_context := None, m_running := False, m_devices := Map.empty,
            refcount := (\<lambda>d. 0),
            trace := [LibusbOpen 1, LibusbExit (Some 100), LibusbClose (handle first_wrapper)]\<rparr>)"
    by (simp add: CloseDevice_def debug_desktop_def tracking_service_def LookupOrCreateDevice_def
        libusb_open_def libusb_close_def libusb_get_device_def libusb_unref_device_def
        libusb_ref_device_def emit_def first_wrapper_def live_service_def UsbService_ctor_def
        Shutdown_def bare_backend_def Let_def fun_eq_iff)
  show ?thesis
    using a b c d by simp
qed

end
